theory Spec2Isabelle
  imports Main
begin

section \<open>kindle-clips: parsing of Kindle clippings and their output formats\<close>

text \<open>
  A shallow embedding of \<^verbatim>\<open>kindle_clips.py\<close>. Python strings are modelled as
  \<^typ>\<open>string\<close>, each character standing for one code point below 256; Python
  integers are \<^typ>\<open>int\<close>; an exception is the \<open>Inl\<close> branch of a sum.
\<close>

subsection \<open>Exceptions\<close>

datatype error = KeyError | ValueError | IndexError

definition bind :: "error + 'a \<Rightarrow> ('a \<Rightarrow> error + 'b) \<Rightarrow> error + 'b" where
  "bind x f = (case x of Inl e \<Rightarrow> Inl e | Inr v \<Rightarrow> f v)"

subsection \<open>Data classes\<close>

record RawClip =
  r_source :: string
  r_info :: string
  r_blank :: string
  r_content :: string
  r_delimiter :: string

record pydate =
  d_year :: int
  d_month :: int
  d_day :: int

record pytime =
  t_hour :: int
  t_minute :: int
  t_second :: int

record Clip =
  c_type :: string
  c_source :: string
  c_page :: "int list"
  c_location :: "int list"
  c_date :: "pydate option"
  c_time :: "pytime option"
  c_content :: string

record Extraction =
  e_highlights :: "Clip list"
  e_notes :: "Clip list"
  e_bookmarks :: "Clip list"
  e_unparsed :: "(RawClip \<times> int) list"

subsection \<open>Strings and characters of the Python runtime\<close>

definition code :: "char \<Rightarrow> nat" where
  "code c = of_char c"

definition is_upper :: "char \<Rightarrow> bool" where
  "is_upper c = (65 \<le> code c \<and> code c \<le> 90)"

definition is_lower :: "char \<Rightarrow> bool" where
  "is_lower c = (97 \<le> code c \<and> code c \<le> 122)"

text \<open>\<^verbatim>\<open>str.lower\<close> and \<^verbatim>\<open>str.upper\<close>; the program applies them to groups of ASCII
  letters only, where they act character by character.\<close>

definition lower_chr :: "char \<Rightarrow> char" where
  "lower_chr c = (if is_upper c then char_of (code c + 32) else c)"

definition upper_chr :: "char \<Rightarrow> char" where
  "upper_chr c = (if is_lower c then char_of (code c - 32) else c)"

definition lower :: "string \<Rightarrow> string" where
  "lower s = map lower_chr s"

definition upper :: "string \<Rightarrow> string" where
  "upper s = map upper_chr s"

text \<open>\<^verbatim>\<open>str.startswith\<close> and \<^verbatim>\<open>str.removesuffix\<close>.\<close>

fun startswith :: "string \<Rightarrow> string \<Rightarrow> bool" where
  "startswith s [] = True"
| "startswith [] (p # ps) = False"
| "startswith (c # s) (p # ps) = (c = p \<and> startswith s ps)"

definition endswith :: "string \<Rightarrow> string \<Rightarrow> bool" where
  "endswith s suf = startswith (rev s) (rev suf)"

definition removesuffix :: "string \<Rightarrow> string \<Rightarrow> string" where
  "removesuffix s suf =
     (if suf \<noteq> [] \<and> endswith s suf then take (length s - length suf) s else s)"

text \<open>\<^verbatim>\<open>int\<close> on a string of ASCII digits, the only strings the patterns below capture
  for it. Integers are unbounded, as in the language; the bound some interpreter versions
  and settings put on the number of digits converted between \<^verbatim>\<open>int\<close> and \<^verbatim>\<open>str\<close> is
  outside the model, here and in \<open>py_str\<close> below.\<close>

definition digit_val :: "char \<Rightarrow> int" where
  "digit_val c = int (code c) - 48"

definition py_int :: "string \<Rightarrow> int" where
  "py_int s = foldl (\<lambda>a c. 10 * a + digit_val c) 0 s"

subsection \<open>The fragment of \<^verbatim>\<open>re\<close> the program uses\<close>

text \<open>
  Every pattern of the program is built from literal characters, character classes,
  greedy bounded or unbounded repetition of one class, capturing groups, alternation and
  the anchor \<^verbatim>\<open>$\<close>, always under \<^verbatim>\<open>IGNORECASE\<close>. A class is a list of ranges.
  The matcher returns all ways to match, in the order the backtracking engine tries
  them; the first is the match the engine reports.
\<close>

type_synonym cls = "(char \<times> char) list"

datatype rx =
    Cls cls
  | Rep cls nat "nat option"
  | Grp nat rx
  | Seq rx rx
  | Alt rx rx
  | Eol

type_synonym caps = "nat \<Rightarrow> string option"

definition in_range :: "char \<times> char \<Rightarrow> char \<Rightarrow> bool" where
  "in_range r c = (code (fst r) \<le> code c \<and> code c \<le> code (snd r))"

definition in_cls :: "cls \<Rightarrow> char \<Rightarrow> bool" where
  "in_cls rs c = list_ex (\<lambda>r. in_range r (lower_chr c) \<or> in_range r (upper_chr c)) rs"

fun rx_match :: "rx \<Rightarrow> string \<times> caps \<Rightarrow> (string \<times> caps) list" where
  "rx_match (Cls k) (s, g) =
     (case s of [] \<Rightarrow> [] | c # t \<Rightarrow> if in_cls k c then [(t, g)] else [])"
| "rx_match (Rep k lo hi) (s, g) =
     (let n = length (takeWhile (in_cls k) s);
          up = (case hi of None \<Rightarrow> n | Some h \<Rightarrow> min n h)
      in map (\<lambda>i. (drop i s, g)) (rev [lo ..< Suc up]))"
| "rx_match (Grp i r) (s, g) =
     map (\<lambda>(t, g'). (t, g'(i \<mapsto> take (length s - length t) s))) (rx_match r (s, g))"
| "rx_match (Seq a b) (s, g) = concat (map (rx_match b) (rx_match a (s, g)))"
| "rx_match (Alt a b) (s, g) = rx_match a (s, g) @ rx_match b (s, g)"
| "rx_match Eol (s, g) = (if s = [] \<or> s = [CHR 0x0A] then [(s, g)] else [])"

text \<open>\<^verbatim>\<open>re.search\<close>: the first start position with a match, scanning left to right,
  the end of the string included.\<close>

fun search :: "rx \<Rightarrow> string \<Rightarrow> caps option" where
  "search r [] = (case rx_match r ([], Map.empty) of [] \<Rightarrow> None | m # _ \<Rightarrow> Some (snd m))"
| "search r (c # s) =
     (case rx_match r (c # s, Map.empty) of [] \<Rightarrow> search r s | m # _ \<Rightarrow> Some (snd m))"

text \<open>The match object, as the list \<^verbatim>\<open>match.groups()\<close> of the \<open>n\<close> groups of the
  pattern (\<open>None\<close> for a group that took no part in the match), and \<^verbatim>\<open>match.group(i)\<close>.\<close>

definition re_search :: "rx \<Rightarrow> nat \<Rightarrow> string \<Rightarrow> string option list option" where
  "re_search r n s = map_option (\<lambda>g. map g [1 ..< Suc n]) (search r s)"

definition group :: "string option list \<Rightarrow> nat \<Rightarrow> string" where
  "group m i = (case m ! (i - 1) of None \<Rightarrow> [] | Some s \<Rightarrow> s)"

text \<open>The match the engine reports at one start position.\<close>

definition first_match :: "rx \<Rightarrow> string \<Rightarrow> caps \<Rightarrow> (string \<times> caps) option" where
  "first_match r s g = (case rx_match r (s, g) of [] \<Rightarrow> None | x # _ \<Rightarrow> Some x)"

text \<open>What a pattern can match: \<open>sem r w t\<close> says that \<open>r\<close> matches the text \<open>w\<close> when
  \<open>t\<close> follows it. Every result of the matcher is of this kind.\<close>

fun sem :: "rx \<Rightarrow> string \<Rightarrow> string \<Rightarrow> bool" where
  "sem (Cls k) w t = (\<exists>c. w = [c] \<and> in_cls k c)"
| "sem (Rep k lo hi) w t =
     (list_all (in_cls k) w \<and> lo \<le> length w \<and> (case hi of None \<Rightarrow> True | Some h \<Rightarrow> length w \<le> h))"
| "sem (Grp i r) w t = sem r w t"
| "sem (Seq a b) w t = (\<exists>u v. w = u @ v \<and> sem a u (v @ t) \<and> sem b v t)"
| "sem (Alt a b) w t = (sem a w t \<or> sem b w t)"
| "sem Eol w t = (w = [] \<and> (t = [] \<or> t = [CHR 0x0A]))"

text \<open>Pattern constructors: a literal string, \<^verbatim>\<open>[0-9]\<close>, \<^verbatim>\<open>[a-z]\<close>, \<^verbatim>\<open>x+\<close>,
  \<^verbatim>\<open>x?\<close>, \<^verbatim>\<open>x{m,n}\<close> and a sequence.\<close>

definition chr :: "char \<Rightarrow> rx" where
  "chr c = Cls [(c, c)]"

fun seqs :: "rx list \<Rightarrow> rx" where
  "seqs [] = Rep [] 0 (Some 0)"
| "seqs [r] = r"
| "seqs (r # rs) = Seq r (seqs rs)"

definition lit :: "string \<Rightarrow> rx" where
  "lit s = seqs (map chr s)"

definition digit :: cls where
  "digit = [(CHR ''0'', CHR ''9'')]"

definition letter :: cls where
  "letter = [(CHR ''a'', CHR ''z'')]"

definition plus :: "cls \<Rightarrow> rx" where
  "plus k = Rep k 1 None"

definition opt :: "cls \<Rightarrow> rx" where
  "opt k = Rep k 0 (Some 1)"

definition between :: "cls \<Rightarrow> nat \<Rightarrow> nat \<Rightarrow> rx" where
  "between k lo hi = Rep k lo (Some hi)"

subsection \<open>Record classification\<close>

definition get_rawclip_type :: "RawClip \<Rightarrow> string" where
  "get_rawclip_type rclip =
     (if startswith (r_info rclip) ''- Your Highlight'' then ''highlight''
      else if startswith (r_info rclip) ''- Your Note'' then ''note''
      else if startswith (r_info rclip) ''- Your Bookmark'' then ''bookmark''
      else ''unparsed'')"

subsection \<open>Field extraction\<close>

text \<open>The groups of a match that are not \<^verbatim>\<open>None\<close>.\<close>

definition not_none :: "string option list \<Rightarrow> string list" where
  "not_none m = List.map_filter (\<lambda>x. x) m"

text \<open>\<^verbatim>\<open>pages? ([0-9]+)-([0-9]+)|page ([0-9]+)\<close>\<close>

definition page_rx :: rx where
  "page_rx =
     Alt (seqs [lit ''page'', opt [(CHR ''s'', CHR ''s'')], chr CHR '' '',
                Grp 1 (plus digit), chr CHR ''-'', Grp 2 (plus digit)])
         (seqs [lit ''page '', Grp 3 (plus digit)])"

definition parse_page_info :: "string \<Rightarrow> int list" where
  "parse_page_info s =
     (case re_search page_rx 3 s of None \<Rightarrow> [] | Some m \<Rightarrow> map py_int (not_none m))"

text \<open>\<^verbatim>\<open>Location ([0-9]+)-([0-9]+)|Location ([0-9]+)\<close>\<close>

definition location_rx :: rx where
  "location_rx =
     Alt (seqs [lit ''Location '', Grp 1 (plus digit), chr CHR ''-'', Grp 2 (plus digit)])
         (seqs [lit ''Location '', Grp 3 (plus digit)])"

definition parse_location_info :: "string \<Rightarrow> int list" where
  "parse_location_info s =
     (case re_search location_rx 3 s of None \<Rightarrow> [] | Some m \<Rightarrow> map py_int (not_none m))"

definition MONTHS :: "string \<rightharpoonup> int" where
  "MONTHS = map_of
     [(''january'', 1), (''february'', 2), (''march'', 3), (''april'', 4),
      (''may'', 5), (''june'', 6), (''july'', 7), (''august'', 8),
      (''september'', 9), (''october'', 10), (''november'', 11), (''december'', 12)]"

text \<open>The constructor \<^verbatim>\<open>datetime.date\<close>, which raises \<^verbatim>\<open>ValueError\<close> outside the
  calendar.\<close>

definition is_leap :: "int \<Rightarrow> bool" where
  "is_leap y = (y mod 4 = 0 \<and> (y mod 100 \<noteq> 0 \<or> y mod 400 = 0))"

definition days_in_month :: "int \<Rightarrow> int \<Rightarrow> int" where
  "days_in_month y m =
     (if m = 2 then (if is_leap y then 29 else 28)
      else if m = 4 \<or> m = 6 \<or> m = 9 \<or> m = 11 then 30 else 31)"

definition py_date :: "int \<Rightarrow> int \<Rightarrow> int \<Rightarrow> error + pydate" where
  "py_date y m d =
     (if y < 1 \<or> 9999 < y then Inl ValueError
      else if m < 1 \<or> 12 < m then Inl ValueError
      else if d < 1 \<or> days_in_month y m < d then Inl ValueError
      else Inr \<lparr>d_year = y, d_month = m, d_day = d\<rparr>)"

text \<open>\<^verbatim>\<open>Added on [a-z]+, ([a-z]+) ([0-9]{1,2}), ([0-9]{4})\<close>\<close>

definition date_rx :: rx where
  "date_rx =
     seqs [lit ''Added on '', plus letter, lit '', '', Grp 1 (plus letter), chr CHR '' '',
           Grp 2 (between digit 1 2), lit '', '', Grp 3 (between digit 4 4)]"

definition parse_date_info :: "string \<Rightarrow> error + pydate option" where
  "parse_date_info s =
     (case re_search date_rx 3 s of
        None \<Rightarrow> Inr None
      | Some m \<Rightarrow>
          (let year = py_int (group m 3) in
           case MONTHS (lower (group m 1)) of
             None \<Rightarrow> Inl KeyError
           | Some month \<Rightarrow>
               (let day = py_int (group m 2) in
                bind (py_date year month day) (\<lambda>d. Inr (Some d)))))"

text \<open>The constructor \<^verbatim>\<open>datetime.time\<close>.\<close>

definition py_time :: "int \<Rightarrow> int \<Rightarrow> int \<Rightarrow> error + pytime" where
  "py_time h m s =
     (if h < 0 \<or> 23 < h then Inl ValueError
      else if m < 0 \<or> 59 < m then Inl ValueError
      else if s < 0 \<or> 59 < s then Inl ValueError
      else Inr \<lparr>t_hour = h, t_minute = m, t_second = s\<rparr>)"

text \<open>\<^verbatim>\<open>([0-9]{1,2}):([0-9]{1,2}):([0-9]{1,2}) ([AMP]+)$\<close>\<close>

definition ampm :: cls where
  "ampm = [(CHR ''A'', CHR ''A''), (CHR ''M'', CHR ''M''), (CHR ''P'', CHR ''P'')]"

definition time_rx :: rx where
  "time_rx =
     seqs [Grp 1 (between digit 1 2), chr CHR '':'', Grp 2 (between digit 1 2), chr CHR '':'',
           Grp 3 (between digit 1 2), chr CHR '' '', Grp 4 (plus ampm), Eol]"

text \<open>The texts the time pattern is made of: one or two digits, and a non-empty period
  token over the letters A, M and P in either case.\<close>

definition digits12 :: "string \<Rightarrow> bool" where
  "digits12 d = (list_all (in_cls digit) d \<and> 1 \<le> length d \<and> length d \<le> 2)"

definition period_token :: "string \<Rightarrow> bool" where
  "period_token q = (q \<noteq> [] \<and> list_all (in_cls ampm) q)"

definition time_text :: "string \<Rightarrow> bool" where
  "time_text w =
     (\<exists>d1 d2 d3 q. w = d1 @ CHR '':'' # d2 @ CHR '':'' # d3 @ CHR '' '' # q
        \<and> digits12 d1 \<and> digits12 d2 \<and> digits12 d3 \<and> period_token q)"

text \<open>The conversion from the 12-hour to the 24-hour clock in \<^verbatim>\<open>parse_time_info\<close>.\<close>

definition to_24h :: "int \<Rightarrow> string \<Rightarrow> int" where
  "to_24h hour period =
     (if period = ''PM'' \<and> hour \<noteq> 12 then hour + 12
      else if period = ''AM'' \<and> hour = 12 then hour - 12
      else hour)"

definition parse_time_info :: "string \<Rightarrow> error + pytime option" where
  "parse_time_info s =
     (case re_search time_rx 4 s of
        None \<Rightarrow> Inr None
      | Some m \<Rightarrow>
          (let hour = py_int (group m 1);
               minutes = py_int (group m 2);
               seconds = py_int (group m 3);
               period = upper (group m 4)
           in bind (py_time (to_24h hour period) minutes seconds) (\<lambda>t. Inr (Some t))))"

subsection \<open>Building a clip from a raw record\<close>

text \<open>The arguments of the \<^verbatim>\<open>Clip\<close> constructor are evaluated from left to right, so
  an exception of the date extraction comes before one of the time extraction.\<close>

definition parse_rawclip :: "RawClip \<Rightarrow> error + Clip" where
  "parse_rawclip rawclip =
     (let ty = get_rawclip_type rawclip;
          pg = parse_page_info (r_info rawclip);
          loc = parse_location_info (r_info rawclip)
      in bind (parse_date_info (r_info rawclip)) (\<lambda>d.
         bind (parse_time_info (r_info rawclip)) (\<lambda>t.
         Inr \<lparr>c_type = ty, c_source = r_source rawclip, c_page = pg, c_location = loc,
              c_date = d, c_time = t, c_content = r_content rawclip\<rparr>)))"

subsection \<open>Parsing the clippings file\<close>

definition nl :: char where
  "nl = CHR 0x0A"

text \<open>The \<^verbatim>\<open>match clip.type\<close> statement of the loop, with the line counter as it stands
  when the statement runs.\<close>

definition collect :: "Extraction \<Rightarrow> Clip \<Rightarrow> RawClip \<Rightarrow> int \<Rightarrow> error + Extraction" where
  "collect e clip rclip line_cnt =
     (if c_type clip = ''highlight'' then Inr (e\<lparr>e_highlights := e_highlights e @ [clip]\<rparr>)
      else if c_type clip = ''note'' then Inr (e\<lparr>e_notes := e_notes e @ [clip]\<rparr>)
      else if c_type clip = ''bookmark'' then Inr (e\<lparr>e_bookmarks := e_bookmarks e @ [clip]\<rparr>)
      else if c_type clip = ''unparsed''
        then Inr (e\<lparr>e_unparsed := e_unparsed e @ [(rclip, line_cnt)]\<rparr>)
      else Inl ValueError)"

text \<open>Building one record and routing it: \<^verbatim>\<open>clip = parse_rawclip(rclip)\<close> followed by
  the \<^verbatim>\<open>match\<close> statement.\<close>

definition build :: "Extraction \<Rightarrow> RawClip \<Rightarrow> int \<Rightarrow> error + Extraction" where
  "build e rclip line_cnt = bind (parse_rawclip rclip) (\<lambda>clip. collect e clip rclip line_cnt)"

text \<open>The local variables of \<^verbatim>\<open>parse_rawclips_file\<close>; the four result lists are kept
  together as an \<^typ>\<open>Extraction\<close>.\<close>

record pstate =
  ext :: Extraction
  current_clip :: "string list"
  line_cnt :: int
  cnt :: int

definition init :: pstate where
  "init = \<lparr>ext = \<lparr>e_highlights = [], e_notes = [], e_bookmarks = [], e_unparsed = []\<rparr>,
           current_clip = [], line_cnt = 0, cnt = 1\<rparr>"

text \<open>One iteration of \<^verbatim>\<open>for line in f\<close>.\<close>

definition step :: "pstate \<Rightarrow> string \<Rightarrow> error + pstate" where
  "step st line =
     (if cnt st \<ge> 5 then
        (if length (current_clip st) < 4 then Inl IndexError
         else
           (let rclip = \<lparr>r_source = current_clip st ! 0, r_info = current_clip st ! 1,
                         r_blank = current_clip st ! 2, r_content = current_clip st ! 3,
                         r_delimiter = removesuffix line [nl]\<rparr>
            in bind (build (ext st) rclip (line_cnt st)) (\<lambda>e.
               Inr (st\<lparr>ext := e, current_clip := [], cnt := 1, line_cnt := line_cnt st + 1\<rparr>))))
      else Inr (st\<lparr>current_clip := current_clip st @ [removesuffix line [nl]],
                    line_cnt := line_cnt st + 1, cnt := cnt st + 1\<rparr>))"

fun loop :: "pstate \<Rightarrow> string list \<Rightarrow> error + Extraction" where
  "loop st [] = Inr (ext st)"
| "loop st (line # ls) = bind (step st line) (\<lambda>st'. loop st' ls)"

definition parse_lines :: "string list \<Rightarrow> error + Extraction" where
  "parse_lines ls = loop init ls"

text \<open>Iterating over a text file opened with \<^verbatim>\<open>newline='\n'\<close>: the text is cut after each
  line feed, which stays at the end of its line.\<close>

fun file_lines :: "string \<Rightarrow> string \<Rightarrow> string list" where
  "file_lines acc [] = (if acc = [] then [] else [acc])"
| "file_lines acc (c # s) =
     (if c = nl then (acc @ [c]) # file_lines [] s else file_lines (acc @ [c]) s)"

text \<open>\<^verbatim>\<open>parse_rawclips_file\<close>, given the decoded text of the file.\<close>

definition parse_rawclips_file :: "string \<Rightarrow> error + Extraction" where
  "parse_rawclips_file text = parse_lines (file_lines [] text)"

text \<open>The raw records of a sequence of lines, five lines each, and the loop seen as a
  pass over them (\<open>n\<close> is the number of lines read before a record); both are used to
  state what the loop computes.\<close>

fun run :: "Extraction \<Rightarrow> int \<Rightarrow> RawClip list \<Rightarrow> error + Extraction" where
  "run e n [] = Inr e"
| "run e n (r # rs) = bind (build e r (n + 4)) (\<lambda>e'. run e' (n + 5) rs)"

fun rawclips :: "string list \<Rightarrow> RawClip list" where
  "rawclips (a # b # c # d # e # ls) =
     \<lparr>r_source = removesuffix a [nl], r_info = removesuffix b [nl],
      r_blank = removesuffix c [nl], r_content = removesuffix d [nl],
      r_delimiter = removesuffix e [nl]\<rparr> # rawclips ls"
| "rawclips ls = []"

text \<open>Of the clips \<open>cs\<close> built from the raw records \<open>gs\<close>, one for one, those whose
  record has a metadata line starting with the text \<open>p\<close>, in the order of the records;
  used to state which clips a bucket holds.\<close>

definition clips_of_prefix :: "string \<Rightarrow> RawClip list \<Rightarrow> Clip list \<Rightarrow> Clip list" where
  "clips_of_prefix p gs cs =
     map snd (filter (\<lambda>gc. startswith (r_info (fst gc)) p) (zip gs cs))"

subsection \<open>Output formatting\<close>

text \<open>\<^verbatim>\<open>str\<close> of an integer, of a date, of a time and of \<^verbatim>\<open>None\<close>.\<close>

definition digit_chr :: "nat \<Rightarrow> char" where
  "digit_chr n = char_of (48 + n)"

fun dec :: "nat \<Rightarrow> string" where
  "dec n = (if n < 10 then [digit_chr n] else dec (n div 10) @ [digit_chr (n mod 10)])"

definition py_str :: "int \<Rightarrow> string" where
  "py_str i = (if i < 0 then CHR ''-'' # dec (nat (- i)) else dec (nat i))"

definition zfill :: "nat \<Rightarrow> string \<Rightarrow> string" where
  "zfill w s = replicate (w - length s) CHR ''0'' @ s"

definition str_date :: "pydate option \<Rightarrow> string" where
  "str_date d =
     (case d of
        None \<Rightarrow> ''None''
      | Some x \<Rightarrow> zfill 4 (py_str (d_year x)) @ ''-'' @ zfill 2 (py_str (d_month x)) @ ''-''
                  @ zfill 2 (py_str (d_day x)))"

definition str_time :: "pytime option \<Rightarrow> string" where
  "str_time t =
     (case t of
        None \<Rightarrow> ''None''
      | Some x \<Rightarrow> zfill 2 (py_str (t_hour x)) @ '':'' @ zfill 2 (py_str (t_minute x)) @ '':''
                  @ zfill 2 (py_str (t_second x)))"

text \<open>\<^verbatim>\<open>sep.join(xs)\<close>.\<close>

fun join :: "string \<Rightarrow> string list \<Rightarrow> string" where
  "join sep [] = []"
| "join sep [x] = x"
| "join sep (x # y # ys) = x @ sep @ join sep (y # ys)"

definition pages_and_loc_to_str :: "int list option \<Rightarrow> string" where
  "pages_and_loc_to_str pp =
     (case pp of
        None \<Rightarrow> ''no data''
      | Some xs \<Rightarrow>
          (let pp_len = length xs in
           if pp_len = 0 then ''no data''
           else if pp_len = 1 then py_str (xs ! 0)
           else if pp_len = 2 then py_str (xs ! 0) @ ''-'' @ py_str (xs ! 1)
           else removesuffix (concat (map (\<lambda>i. py_str i @ '', '') xs)) '', ''))"

text \<open>Formatting a bound built-in method of a string with \<^verbatim>\<open>{}\<close> gives its \<^verbatim>\<open>repr\<close>,
  which names the method and the address of the string object; the address is not
  determined by the program and is a parameter here.\<close>

definition method_repr :: "string \<Rightarrow> string \<Rightarrow> string" where
  "method_repr name address =
     ''<built-in method '' @ name @ '' of str object at '' @ address @ ''>''"

definition text_block :: "(string \<Rightarrow> string) \<Rightarrow> string \<Rightarrow> Clip \<Rightarrow> string" where
  "text_block address delimiter clip =
     concat [''Source: '' @ c_source clip @ [nl],
             ''Page: '' @ pages_and_loc_to_str (Some (c_page clip)) @ [nl],
             ''Location: '' @ pages_and_loc_to_str (Some (c_location clip)) @ [nl],
             ''Creation: '' @ str_date (c_date clip) @ '' | '' @ str_time (c_time clip) @ [nl],
             method_repr ''capitalize'' (address (c_type clip)) @ '':'' @ [nl, nl],
             c_content clip @ [nl],
             delimiter]"

definition text_formatter :: "(string \<Rightarrow> string) \<Rightarrow> Clip list \<Rightarrow> string" where
  "text_formatter address clips =
     (let columns = 70;
          delimiter = replicate columns CHR ''-'' @ [nl];
          result = map (text_block address delimiter) clips
      in delimiter @ join delimiter result @ delimiter)"

text \<open>The values handed to \<^verbatim>\<open>json.dumps\<close>, and \<^verbatim>\<open>json.dumps\<close> with an indentation
  (separators \<^verbatim>\<open>','\<close> and \<^verbatim>\<open>': '\<close>, non-printable and non-ASCII characters escaped).
  In \<open>json_dict\<close> the entry \<open>time\<close> is \<^verbatim>\<open>str(clip.source)\<close>, as the source has it.\<close>

datatype json = JStr string | JInt int | JList "json list" | JDict "(string \<times> json) list"

definition hex_chr :: "nat \<Rightarrow> char" where
  "hex_chr n = (if n < 10 then char_of (48 + n) else char_of (87 + n))"

definition escape_chr :: "char \<Rightarrow> string" where
  "escape_chr c =
     (if c = CHR 0x22 then [CHR 0x5C, CHR 0x22]
      else if c = CHR 0x5C then [CHR 0x5C, CHR 0x5C]
      else if c = CHR 0x0A then [CHR 0x5C, CHR ''n'']
      else if c = CHR 0x0D then [CHR 0x5C, CHR ''r'']
      else if c = CHR 0x09 then [CHR 0x5C, CHR ''t'']
      else if c = CHR 0x08 then [CHR 0x5C, CHR ''b'']
      else if c = CHR 0x0C then [CHR 0x5C, CHR ''f'']
      else if 32 \<le> code c \<and> code c \<le> 126 then [c]
      else [CHR 0x5C, CHR ''u'', CHR ''0'', CHR ''0'', hex_chr (code c div 16),
            hex_chr (code c mod 16)])"

definition encode_str :: "string \<Rightarrow> string" where
  "encode_str s = [CHR 0x22] @ concat (map escape_chr s) @ [CHR 0x22]"

definition newline_indent :: "nat \<Rightarrow> nat \<Rightarrow> string" where
  "newline_indent indent level = nl # replicate (indent * level) CHR '' ''"

fun dumps_at :: "nat \<Rightarrow> nat \<Rightarrow> json \<Rightarrow> string" where
  "dumps_at indent level (JStr s) = encode_str s"
| "dumps_at indent level (JInt i) = py_str i"
| "dumps_at indent level (JList xs) =
     (if xs = [] then ''[]''
      else ''['' @ newline_indent indent (Suc level)
           @ join ('','' @ newline_indent indent (Suc level))
                  (map (dumps_at indent (Suc level)) xs)
           @ newline_indent indent level @ '']'')"
| "dumps_at indent level (JDict kvs) =
     (if kvs = [] then ''{}''
      else ''{'' @ newline_indent indent (Suc level)
           @ join ('','' @ newline_indent indent (Suc level))
                  (map (\<lambda>kv. encode_str (fst kv) @ '': '' @ dumps_at indent (Suc level) (snd kv))
                       kvs)
           @ newline_indent indent level @ ''}'')"

definition json_dumps :: "json \<Rightarrow> nat \<Rightarrow> string" where
  "json_dumps v indent = dumps_at indent 0 v"

definition json_dict :: "Clip \<Rightarrow> json" where
  "json_dict clip =
     JDict [(''source'', JStr (c_source clip)),
            (''page'', JList (map JInt (c_page clip))),
            (''location'', JList (map JInt (c_location clip))),
            (''date'', JStr (str_date (c_date clip))),
            (''time'', JStr (c_source clip)),
            (''type'', JStr (c_type clip)),
            (''content'', JStr (c_content clip))]"

definition json_formatter :: "Clip list \<Rightarrow> string" where
  "json_formatter clips = json_dumps (JList (map json_dict clips)) 4"

text \<open>The lines of an output text, cut at the line feeds; used to state what a formatter
  prints.\<close>

fun lines_of :: "string \<Rightarrow> string \<Rightarrow> string list" where
  "lines_of acc [] = [acc]"
| "lines_of acc (c # s) = (if c = nl then acc # lines_of [] s else lines_of (acc @ [c]) s)"

section \<open>Properties\<close>

subsection \<open>The loop as a pass over raw records\<close>

lemma bind_simps: "bind (Inl e) f = Inl e" "bind (Inr v) f = f v"
  by (simp_all add: bind_def)

lemma loop_group:
  assumes "current_clip st = []" "cnt st = 1"
  shows "loop st (a # b # c # d # e # ls) =
     bind (build (ext st) (hd (rawclips [a, b, c, d, e])) (line_cnt st + 4))
       (\<lambda>e'. loop (st\<lparr>ext := e', current_clip := [], cnt := 1,
                        line_cnt := line_cnt st + 5\<rparr>) ls)"
proof (cases "build (ext st) (hd (rawclips [a, b, c, d, e])) (line_cnt st + 4)")
  case (Inl x)
  then show ?thesis using assms by (simp add: step_def bind_simps add.commute)
next
  case (Inr x)
  then show ?thesis using assms by (simp add: step_def bind_simps add.commute)
qed

lemma loop_short:
  assumes "current_clip st = []" "cnt st = 1" "length ls < 5"
  shows "loop st ls = Inr (ext st)"
proof -
  from assms(3) consider "ls = []" | a where "ls = [a]" | a b where "ls = [a, b]"
    | a b c where "ls = [a, b, c]" | a b c d where "ls = [a, b, c, d]"
    by (cases ls rule: rawclips.cases) auto
  then show ?thesis
    using assms(1,2) by cases (simp_all add: step_def bind_simps)
qed

lemma loop_run:
  "current_clip st = [] \<Longrightarrow> cnt st = 1 \<Longrightarrow>
   loop st ls = run (ext st) (line_cnt st) (rawclips ls)"
proof (induction ls arbitrary: st rule: rawclips.induct)
  case (1 a b c d e ls)
  have "loop st (a # b # c # d # e # ls) =
     bind (build (ext st) (hd (rawclips [a, b, c, d, e])) (line_cnt st + 4))
       (\<lambda>e'. loop (st\<lparr>ext := e', current_clip := [], cnt := 1,
                        line_cnt := line_cnt st + 5\<rparr>) ls)"
    using 1(2,3) by (rule loop_group)
  moreover have "\<And>e'. loop (st\<lparr>ext := e', current_clip := [], cnt := 1,
                               line_cnt := line_cnt st + 5\<rparr>) ls =
      run e' (line_cnt st + 5) (rawclips ls)"
    by (simp add: 1(1))
  ultimately show ?case by simp
qed (simp_all add: loop_short del: loop.simps)

lemma parse_lines_run:
  "parse_lines ls =
     run \<lparr>e_highlights = [], e_notes = [], e_bookmarks = [], e_unparsed = []\<rparr> 0 (rawclips ls)"
  by (simp add: parse_lines_def loop_run init_def)

lemma rawclips_take: "rawclips (take (5 * (length ls div 5)) ls) = rawclips ls"
proof (induction ls rule: rawclips.induct)
  case (1 a b c d e ls)
  have "5 * (length (a # b # c # d # e # ls) div 5) =
        Suc (Suc (Suc (Suc (Suc (5 * (length ls div 5))))))"
    by (simp del: mult_Suc_right) presburger
  then show ?case using 1 by simp
qed simp_all

lemma length_rawclips: "length (rawclips ls) = length ls div 5"
  by (induction ls rule: rawclips.induct) simp_all

subsection \<open>The matcher\<close>

lemma take_takeWhile: "i \<le> length (takeWhile P s) \<Longrightarrow> list_all P (take i s)"
proof (induction s arbitrary: i)
  case Nil then show ?case by simp
next
  case (Cons a s) then show ?case by (cases i) (auto split: if_splits)
qed

lemma rx_match_sound:
  "(t, g') \<in> set (rx_match r (s, g)) \<Longrightarrow> \<exists>w. s = w @ t \<and> sem r w t"
proof (induction r arbitrary: s g t g')
  case (Cls k)
  then show ?case by (auto split: list.splits if_splits)
next
  case (Rep k lo hi)
  define n where "n = length (takeWhile (in_cls k) s)"
  define up where "up = (case hi of None \<Rightarrow> n | Some h \<Rightarrow> min n h)"
  have "rx_match (Rep k lo hi) (s, g) = map (\<lambda>i. (drop i s, g)) (rev [lo ..< Suc up])"
    unfolding up_def n_def by (simp add: Let_def del: upt_Suc)
  then have "(t, g') \<in> set (map (\<lambda>i. (drop i s, g)) (rev [lo ..< Suc up]))"
    using Rep by simp
  then have "(t, g') \<in> (\<lambda>i. (drop i s, g)) ` {lo ..< Suc up}"
    by (simp del: upt_Suc)
  then obtain i where i: "lo \<le> i" "i \<le> up" and t: "t = drop i s" by auto
  have upn: "up \<le> n" by (simp add: up_def split: option.splits)
  have uph: "case hi of None \<Rightarrow> True | Some h \<Rightarrow> i \<le> h"
    using i(2) by (simp add: up_def split: option.splits)
  have in': "i \<le> length (takeWhile (in_cls k) s)" using i(2) upn by (simp add: n_def)
  have "i \<le> length s" using in' length_takeWhile_le[of "in_cls k" s] by simp
  then have "length (take i s) = i" by simp
  moreover have "list_all (in_cls k) (take i s)" using in' by (rule take_takeWhile)
  ultimately have "sem (Rep k lo hi) (take i s) t" using i uph by (auto split: option.splits)
  moreover have "s = take i s @ t" using t by simp
  ultimately show ?case by blast
next
  case (Grp i r)
  then obtain g0 where "(t, g0) \<in> set (rx_match r (s, g))" by auto
  from Grp.IH[OF this] show ?case by simp
next
  case (Seq a b)
  then obtain t1 g1 where 1: "(t1, g1) \<in> set (rx_match a (s, g))"
    and 2: "(t, g') \<in> set (rx_match b (t1, g1))" by auto
  from Seq.IH(1)[OF 1] obtain u where u: "s = u @ t1" "sem a u t1" by blast
  from Seq.IH(2)[OF 2] obtain v where v: "t1 = v @ t" "sem b v t" by blast
  have "s = (u @ v) @ t" using u v by simp
  moreover have "sem (Seq a b) (u @ v) t" using u v by auto
  ultimately show ?case by blast
next
  case (Alt a b)
  from Alt.prems consider "(t, g') \<in> set (rx_match a (s, g))" | "(t, g') \<in> set (rx_match b (s, g))"
    by auto
  then show ?case
  proof cases
    case 1
    from Alt.IH(1)[OF 1] show ?thesis by auto
  next
    case 2
    from Alt.IH(2)[OF 2] show ?thesis by auto
  qed
next
  case Eol
  then show ?case by (auto split: if_splits)
qed

lemma first_seq:
  assumes "first_match a s g = Some (s1, g1)" and "first_match b s1 g1 = Some y"
  shows "first_match (Seq a b) s g = Some y"
  using assms by (auto simp: first_match_def split: list.splits)

lemma first_grp:
  assumes "first_match r s g = Some (t, g')"
  shows "first_match (Grp i r) s g = Some (t, g'(i \<mapsto> take (length s - length t) s))"
  using assms by (auto simp: first_match_def split: list.splits)

lemma takeWhile_all: "list_all P w \<Longrightarrow> t = [] \<or> \<not> P (hd t) \<Longrightarrow> takeWhile P (w @ t) = w"
  by (induction w) (auto simp: takeWhile_eq_Nil_iff neq_Nil_conv)

lemma first_rep:
  assumes "list_all (in_cls k) w" "lo \<le> length w" "case hi of None \<Rightarrow> True | Some h \<Rightarrow> length w \<le> h"
    and "t = [] \<or> \<not> in_cls k (hd t)"
  shows "first_match (Rep k lo hi) (w @ t) g = Some (t, g)"
proof -
  have tw: "takeWhile (in_cls k) (w @ t) = w" using assms(1,4) by (rule takeWhile_all)
  have up: "(case hi of None \<Rightarrow> length w | Some h \<Rightarrow> min (length w) h) = length w"
    using assms(3) by (auto split: option.splits)
  show ?thesis
    using assms(2) by (simp add: first_match_def tw up Let_def)
qed

lemma first_chr: "in_cls [(c, c)] x \<Longrightarrow> first_match (chr c) (x # t) g = Some (t, g)"
  by (simp add: first_match_def chr_def)

lemma first_eol: "first_match Eol [] g = Some ([], g)"
  by (simp add: first_match_def)


lemma code_char_of: "n < 256 \<Longrightarrow> code (char_of n) = n"
  by (simp add: code_def)

lemma code_inj: "code c = code d \<Longrightarrow> c = d"
  by (simp add: code_def)

lemma in_cls_single:
  assumes "in_cls [(x, x)] c" and "\<not> is_upper x" and "\<not> is_lower x"
  shows "c = x"
proof -
  from assms(1) consider "code (lower_chr c) = code x" | "code (upper_chr c) = code x"
    by (auto simp: in_cls_def in_range_def)
  then show ?thesis
  proof cases
    case 1
    show ?thesis
    proof (cases "is_upper c")
      case True
      then have "code c + 32 < 256" unfolding is_upper_def by arith
      then have "code (lower_chr c) = code c + 32"
        using True by (simp add: lower_chr_def code_char_of)
      then have "is_lower x" using 1 True by (simp add: is_lower_def is_upper_def)
      then show ?thesis using assms(3) by simp
    next
      case False
      then show ?thesis using 1 by (simp add: lower_chr_def code_inj)
    qed
  next
    case 2
    show ?thesis
    proof (cases "is_lower c")
      case True
      then have "code c - 32 < 256" unfolding is_lower_def by arith
      then have "code (upper_chr c) = code c - 32"
        using True by (simp add: upper_chr_def code_char_of)
      then have "is_upper x" using 2 True by (auto simp: is_lower_def is_upper_def)
      then show ?thesis using assms(2) by simp
    next
      case False
      then show ?thesis using 2 by (simp add: upper_chr_def code_inj)
    qed
  qed
qed

lemma in_cls_colon: "in_cls [(CHR '':'', CHR '':'')] c \<Longrightarrow> c = CHR '':''"
  by (rule in_cls_single) (simp_all add: is_upper_def is_lower_def code_def)

lemma in_cls_space: "in_cls [(CHR '' '', CHR '' '')] c \<Longrightarrow> c = CHR '' ''"
  by (rule in_cls_single) (simp_all add: is_upper_def is_lower_def code_def)

lemma digit_not_sep: "in_cls digit c \<Longrightarrow> c \<noteq> CHR '':'' \<and> c \<noteq> CHR '' ''"
proof -
  have "\<not> in_cls digit CHR '':''" "\<not> in_cls digit CHR '' ''" by code_simp+
  then show "in_cls digit c \<Longrightarrow> c \<noteq> CHR '':'' \<and> c \<noteq> CHR '' ''" by auto
qed

lemma ampm_not_sep: "in_cls ampm c \<Longrightarrow> c \<noteq> CHR '' '' \<and> c \<noteq> CHR 0x0A"
proof -
  have "\<not> in_cls ampm CHR '' ''" "\<not> in_cls ampm CHR 0x0A" by code_simp+
  then show "in_cls ampm c \<Longrightarrow> c \<noteq> CHR '' '' \<and> c \<noteq> CHR 0x0A" by auto
qed

lemma time_textI:
  "digits12 d1 \<Longrightarrow> digits12 d2 \<Longrightarrow> digits12 d3 \<Longrightarrow> period_token q \<Longrightarrow>
   time_text (d1 @ CHR '':'' # d2 @ CHR '':'' # d3 @ CHR '' '' # q)"
  unfolding time_text_def by blast

lemma sem_time:
  assumes "sem time_rx w t"
  shows "time_text w \<and> (t = [] \<or> t = [CHR 0x0A])"
  using assms
  unfolding time_rx_def
  by (auto simp: chr_def between_def plus_def digits12_def period_token_def
           dest!: in_cls_colon in_cls_space intro!: time_textI)

subsection \<open>Well-formed input\<close>

lemma parse_rawclip_type: "parse_rawclip g = Inr c \<Longrightarrow> c_type c = get_rawclip_type g"
  by (auto simp: parse_rawclip_def bind_def Let_def split: sum.splits)

lemma get_rawclip_type_cases:
  "get_rawclip_type g = ''highlight'' \<or> get_rawclip_type g = ''note'' \<or>
   get_rawclip_type g = ''bookmark'' \<or> get_rawclip_type g = ''unparsed''"
  by (simp add: get_rawclip_type_def)

lemma run_kinds:
  assumes "\<forall>g \<in> set gs. get_rawclip_type g \<noteq> ''unparsed''"
      and "map parse_rawclip gs = map Inr cs"
  shows "run e n gs =
     Inr \<lparr>e_highlights = e_highlights e @ filter (\<lambda>c. c_type c = ''highlight'') cs,
          e_notes = e_notes e @ filter (\<lambda>c. c_type c = ''note'') cs,
          e_bookmarks = e_bookmarks e @ filter (\<lambda>c. c_type c = ''bookmark'') cs,
          e_unparsed = e_unparsed e\<rparr>"
  using assms
proof (induction gs arbitrary: e n cs)
  case Nil
  then show ?case by simp
next
  case (Cons g gs)
  from Cons.prems(2) obtain c cs' where cs: "cs = c # cs'" and c: "parse_rawclip g = Inr c"
    and rest: "map parse_rawclip gs = map Inr cs'"
    by (cases cs) auto
  have ty: "c_type c = get_rawclip_type g" using c by (rule parse_rawclip_type)
  have nu: "get_rawclip_type g \<noteq> ''unparsed''" using Cons.prems(1) by simp
  from Cons.prems(1) have all: "\<forall>g \<in> set gs. get_rawclip_type g \<noteq> ''unparsed''" by simp
  note IH = Cons.IH[OF all rest]
  from get_rawclip_type_cases[of g] nu consider
    "c_type c = ''highlight''" | "c_type c = ''note''" | "c_type c = ''bookmark''"
    using ty by auto
  then show ?case
  proof cases
    case 1
    then show ?thesis by (simp add: build_def c bind_simps collect_def IH cs)
  next
    case 2
    then show ?thesis by (simp add: build_def c bind_simps collect_def IH cs)
  next
    case 3
    then show ?thesis by (simp add: build_def c bind_simps collect_def IH cs)
  qed
qed

lemma kinds_partition:
  assumes "\<forall>c \<in> set cs. c_type c = ''highlight'' \<or> c_type c = ''note'' \<or> c_type c = ''bookmark''"
  shows "length (filter (\<lambda>c. c_type c = ''highlight'') cs) + length (filter (\<lambda>c. c_type c = ''note'') cs)
     + length (filter (\<lambda>c. c_type c = ''bookmark'') cs) = length cs"
  using assms by (induction cs) auto

lemma startswith_iff: "startswith s p \<longleftrightarrow> (\<exists>t. s = p @ t)"
  by (induction s p rule: startswith.induct) auto

text \<open>The kind the classifier returns is decided by the text the metadata line starts
  with; the three prefixes exclude each other.\<close>

lemma kind_of_prefix:
  "get_rawclip_type g = ''highlight'' \<longleftrightarrow> startswith (r_info g) ''- Your Highlight''"
  "get_rawclip_type g = ''note'' \<longleftrightarrow> startswith (r_info g) ''- Your Note''"
  "get_rawclip_type g = ''bookmark'' \<longleftrightarrow> startswith (r_info g) ''- Your Bookmark''"
  by (auto simp: get_rawclip_type_def startswith_iff)

lemma filter_type_prefix:
  assumes "map parse_rawclip gs = map Inr cs"
      and "\<And>g. get_rawclip_type g = k \<longleftrightarrow> startswith (r_info g) p"
  shows "filter (\<lambda>c. c_type c = k) cs = clips_of_prefix p gs cs"
  using assms(1)
proof (induction gs arbitrary: cs)
  case Nil
  then show ?case by (simp add: clips_of_prefix_def)
next
  case (Cons g gs)
  from Cons.prems obtain c cs' where cs: "cs = c # cs'" and c: "parse_rawclip g = Inr c"
    and rest: "map parse_rawclip gs = map Inr cs'"
    by (cases cs) auto
  have ty: "c_type c = get_rawclip_type g" using c by (rule parse_rawclip_type)
  have IH: "filter (\<lambda>c. c_type c = k) cs' = clips_of_prefix p gs cs'"
    using rest by (rule Cons.IH)
  show ?case
  proof (cases "startswith (r_info g) p")
    case True
    then have "c_type c = k" using ty assms(2)[of g] by simp
    then show ?thesis using True IH by (simp add: cs clips_of_prefix_def)
  next
    case False
    then have "c_type c \<noteq> k" using ty assms(2)[of g] by simp
    then show ?thesis using False IH by (simp add: cs clips_of_prefix_def)
  qed
qed

text \<open>
  Claim C4. Let the input consist of five-line groups whose metadata lines each start
  with \<open>- Your Highlight\<close>, \<open>- Your Note\<close> or \<open>- Your Bookmark\<close> and whose
  field extraction raises no error, and let \<open>cs\<close> be the clips built from the groups,
  in input order. Then parsing returns an extraction whose highlight bucket holds the
  clips of the groups starting with \<open>- Your Highlight\<close>, whose note bucket those of
  the groups starting with \<open>- Your Note\<close> and whose bookmark bucket those of the
  groups starting with \<open>- Your Bookmark\<close>, each in input order, with an empty
  unparsed bucket; there are as many clips as groups, all buckets together hold exactly
  that many, and each clip carries the kind its group's prefix names.
\<close>

theorem parse_lines_well_formed:
  assumes "\<forall>g \<in> set (rawclips ls).
             startswith (r_info g) ''- Your Highlight'' \<or> startswith (r_info g) ''- Your Note''
             \<or> startswith (r_info g) ''- Your Bookmark''"
      and "map parse_rawclip (rawclips ls) = map Inr cs"
  shows "parse_lines ls =
           Inr \<lparr>e_highlights = clips_of_prefix ''- Your Highlight'' (rawclips ls) cs,
                e_notes = clips_of_prefix ''- Your Note'' (rawclips ls) cs,
                e_bookmarks = clips_of_prefix ''- Your Bookmark'' (rawclips ls) cs,
                e_unparsed = []\<rparr>
         \<and> length cs = length ls div 5
         \<and> length (clips_of_prefix ''- Your Highlight'' (rawclips ls) cs)
             + length (clips_of_prefix ''- Your Note'' (rawclips ls) cs)
             + length (clips_of_prefix ''- Your Bookmark'' (rawclips ls) cs) = length ls div 5
         \<and> (\<forall>i < length cs.
               (startswith (r_info (rawclips ls ! i)) ''- Your Highlight''
                  \<longrightarrow> c_type (cs ! i) = ''highlight'')
               \<and> (startswith (r_info (rawclips ls ! i)) ''- Your Note''
                  \<longrightarrow> c_type (cs ! i) = ''note'')
               \<and> (startswith (r_info (rawclips ls ! i)) ''- Your Bookmark''
                  \<longrightarrow> c_type (cs ! i) = ''bookmark''))"
proof -
  have kinds: "\<forall>g \<in> set (rawclips ls).
      get_rawclip_type g = ''highlight'' \<or> get_rawclip_type g = ''note''
      \<or> get_rawclip_type g = ''bookmark''"
    using assms(1) by (simp add: kind_of_prefix)
  have nu: "\<forall>g \<in> set (rawclips ls). get_rawclip_type g \<noteq> ''unparsed''"
    using kinds by auto
  have len: "length cs = length ls div 5"
    using arg_cong[OF assms(2), of length] by (simp add: length_rawclips)
  have ty: "\<forall>i < length cs. c_type (cs ! i) = get_rawclip_type (rawclips ls ! i)"
  proof (intro allI impI)
    fix i assume i: "i < length cs"
    then have "i < length (rawclips ls)" using len by (simp add: length_rawclips)
    then have "parse_rawclip (rawclips ls ! i) = map parse_rawclip (rawclips ls) ! i" by simp
    also have "\<dots> = map Inr cs ! i" by (simp only: assms(2))
    also have "\<dots> = Inr (cs ! i)" using i by simp
    finally have "parse_rawclip (rawclips ls ! i) = Inr (cs ! i)" .
    then show "c_type (cs ! i) = get_rawclip_type (rawclips ls ! i)" by (rule parse_rawclip_type)
  qed
  have fh: "filter (\<lambda>c. c_type c = ''highlight'') cs
              = clips_of_prefix ''- Your Highlight'' (rawclips ls) cs"
    using assms(2) kind_of_prefix(1) by (rule filter_type_prefix)
  have fn: "filter (\<lambda>c. c_type c = ''note'') cs
              = clips_of_prefix ''- Your Note'' (rawclips ls) cs"
    using assms(2) kind_of_prefix(2) by (rule filter_type_prefix)
  have fb: "filter (\<lambda>c. c_type c = ''bookmark'') cs
              = clips_of_prefix ''- Your Bookmark'' (rawclips ls) cs"
    using assms(2) kind_of_prefix(3) by (rule filter_type_prefix)
  have "\<forall>c \<in> set cs. c_type c = ''highlight'' \<or> c_type c = ''note'' \<or> c_type c = ''bookmark''"
  proof
    fix c assume "c \<in> set cs"
    then obtain i where i: "i < length cs" and c: "c = cs ! i" by (auto simp: in_set_conv_nth)
    then have "rawclips ls ! i \<in> set (rawclips ls)" using len by (simp add: length_rawclips)
    then show "c_type c = ''highlight'' \<or> c_type c = ''note'' \<or> c_type c = ''bookmark''"
      using kinds ty i c by auto
  qed
  then have "length (filter (\<lambda>c. c_type c = ''highlight'') cs)
             + length (filter (\<lambda>c. c_type c = ''note'') cs)
             + length (filter (\<lambda>c. c_type c = ''bookmark'') cs) = length cs"
    by (rule kinds_partition)
  then have part: "length (clips_of_prefix ''- Your Highlight'' (rawclips ls) cs)
             + length (clips_of_prefix ''- Your Note'' (rawclips ls) cs)
             + length (clips_of_prefix ''- Your Bookmark'' (rawclips ls) cs) = length ls div 5"
    unfolding fh fn fb using len by (rule trans)
  have res: "parse_lines ls =
           Inr \<lparr>e_highlights = clips_of_prefix ''- Your Highlight'' (rawclips ls) cs,
                e_notes = clips_of_prefix ''- Your Note'' (rawclips ls) cs,
                e_bookmarks = clips_of_prefix ''- Your Bookmark'' (rawclips ls) cs,
                e_unparsed = []\<rparr>"
    using run_kinds[OF nu assms(2)] by (simp add: parse_lines_run fh fn fb)
  have tyi: "\<forall>i < length cs.
               (startswith (r_info (rawclips ls ! i)) ''- Your Highlight''
                  \<longrightarrow> c_type (cs ! i) = ''highlight'')
               \<and> (startswith (r_info (rawclips ls ! i)) ''- Your Note''
                  \<longrightarrow> c_type (cs ! i) = ''note'')
               \<and> (startswith (r_info (rawclips ls ! i)) ''- Your Bookmark''
                  \<longrightarrow> c_type (cs ! i) = ''bookmark'')"
    using ty by (simp add: kind_of_prefix)
  from res len part tyi show ?thesis
    by (intro conjI)
qed

theorem parse_lines_well_formed_witness:
  "parse_lines [''A'', ''- Your Highlight on page 4'', [], ''x'', ''='',
                ''B'', ''- Your Note'', [], ''y'', ''='',
                ''C'', ''- Your Bookmark on page 7'', [], [], ''='']
     = Inr \<lparr>e_highlights = [\<lparr>c_type = ''highlight'', c_source = ''A'', c_page = [4],
                              c_location = [], c_date = None, c_time = None,
                              c_content = ''x''\<rparr>],
            e_notes = [\<lparr>c_type = ''note'', c_source = ''B'', c_page = [],
                         c_location = [], c_date = None, c_time = None,
                         c_content = ''y''\<rparr>],
            e_bookmarks = [\<lparr>c_type = ''bookmark'', c_source = ''C'', c_page = [7],
                             c_location = [], c_date = None, c_time = None,
                             c_content = []\<rparr>],
            e_unparsed = []\<rparr>"
proof -
  let ?ls = "[''A'', ''- Your Highlight on page 4'', [], ''x'', ''='',
              ''B'', ''- Your Note'', [], ''y'', ''='',
              ''C'', ''- Your Bookmark on page 7'', [], [], ''='']"
  let ?h = "\<lparr>c_type = ''highlight'', c_source = ''A'', c_page = [4],
             c_location = [], c_date = None, c_time = None, c_content = ''x''\<rparr>"
  let ?n = "\<lparr>c_type = ''note'', c_source = ''B'', c_page = [],
             c_location = [], c_date = None, c_time = None, c_content = ''y''\<rparr>"
  let ?b = "\<lparr>c_type = ''bookmark'', c_source = ''C'', c_page = [7],
             c_location = [], c_date = None, c_time = None, c_content = []\<rparr>"
  have h1: "\<forall>g \<in> set (rawclips ?ls).
              startswith (r_info g) ''- Your Highlight'' \<or> startswith (r_info g) ''- Your Note''
              \<or> startswith (r_info g) ''- Your Bookmark''"
    by code_simp
  have h2: "map parse_rawclip (rawclips ?ls) = map Inr [?h, ?n, ?b]"
    by code_simp
  have e1: "clips_of_prefix ''- Your Highlight'' (rawclips ?ls) [?h, ?n, ?b] = [?h]"
    by code_simp
  have e2: "clips_of_prefix ''- Your Note'' (rawclips ?ls) [?h, ?n, ?b] = [?n]"
    by code_simp
  have e3: "clips_of_prefix ''- Your Bookmark'' (rawclips ?ls) [?h, ?n, ?b] = [?b]"
    by code_simp
  have "parse_lines ?ls =
           Inr \<lparr>e_highlights = clips_of_prefix ''- Your Highlight'' (rawclips ?ls) [?h, ?n, ?b],
                e_notes = clips_of_prefix ''- Your Note'' (rawclips ?ls) [?h, ?n, ?b],
                e_bookmarks = clips_of_prefix ''- Your Bookmark'' (rawclips ?ls) [?h, ?n, ?b],
                e_unparsed = []\<rparr>"
    using parse_lines_well_formed [OF h1 h2] by (rule conjunct1)
  then show ?thesis
    by (simp only: e1 e2 e3)
qed

subsection \<open>A trailing partial group\<close>

text \<open>
  Claim C5. Parsing any sequence of lines gives the same result, extraction or error,
  as parsing it cut back to its last complete five-line group: the lines of a trailing
  partial group add no clip, no unparsed entry and no error.
\<close>

theorem parse_lines_drops_partial_group:
  "parse_lines ls = parse_lines (take (5 * (length ls div 5)) ls)"
  by (simp add: parse_lines_run rawclips_take)

theorem parse_lines_drops_partial_group_witness:
  "parse_lines [''A'', ''- Your Note'', [], ''y'', ''='', ''B'', ''- Your Highlight'']
     = Inr \<lparr>e_highlights = [],
            e_notes = [\<lparr>c_type = ''note'', c_source = ''A'', c_page = [],
                         c_location = [], c_date = None, c_time = None,
                         c_content = ''y''\<rparr>],
            e_bookmarks = [], e_unparsed = []\<rparr>"
proof -
  have "parse_lines [''A'', ''- Your Note'', [], ''y'', ''='']
     = Inr \<lparr>e_highlights = [],
            e_notes = [\<lparr>c_type = ''note'', c_source = ''A'', c_page = [],
                         c_location = [], c_date = None, c_time = None,
                         c_content = ''y''\<rparr>],
            e_bookmarks = [], e_unparsed = []\<rparr>"
    by code_simp
  then show ?thesis
    using parse_lines_drops_partial_group
            [of "[''A'', ''- Your Note'', [], ''y'', ''='', ''B'', ''- Your Highlight'']"]
    by simp
qed

subsection \<open>Records with an unrecognised metadata line\<close>

text \<open>
  Claim C2, as the claim states it, fails: field extraction runs on every raw record,
  whatever its kind. The raw record below is classified as unparsed, its metadata line
  matches the date pattern with a month that is not in the table, and building it raises
  \<open>KeyError\<close>, which ends the whole parse.
\<close>

theorem field_extraction_on_unparsed_raises:
  "get_rawclip_type \<lparr>r_source = ''Book'', r_info = ''Added on Sunday, Foo 27, 2023'',
                      r_blank = [], r_content = ''text'', r_delimiter = ''==========''\<rparr>
     = ''unparsed''
   \<and> build \<lparr>e_highlights = [], e_notes = [], e_bookmarks = [], e_unparsed = []\<rparr>
        \<lparr>r_source = ''Book'', r_info = ''Added on Sunday, Foo 27, 2023'',
         r_blank = [], r_content = ''text'', r_delimiter = ''==========''\<rparr> 4
     = Inl KeyError
   \<and> parse_lines [''Book'', ''Added on Sunday, Foo 27, 2023'', [], ''text'', ''=========='']
     = Inl KeyError"
  by code_simp

text \<open>
  Claim C2, amended. For every raw record whose metadata line is classified as unparsed
  and on which field extraction raises no error, the build step returns the extraction
  with the raw record, unchanged and paired with the line counter it was given, appended
  to the unparsed bucket; the three kind buckets are unchanged.
\<close>

theorem build_unparsed:
  assumes "get_rawclip_type rclip = ''unparsed''" and "parse_rawclip rclip = Inr clip"
  shows "build e rclip n = Inr (e\<lparr>e_unparsed := e_unparsed e @ [(rclip, n)]\<rparr>)"
proof -
  have "c_type clip = ''unparsed''"
    using assms by (simp add: parse_rawclip_type)
  then show ?thesis
    using assms(2) by (simp add: build_def bind_simps collect_def)
qed

theorem build_unparsed_witness:
  "build \<lparr>e_highlights = [], e_notes = [], e_bookmarks = [], e_unparsed = []\<rparr>
     \<lparr>r_source = ''Book'', r_info = ''garbage'', r_blank = [], r_content = ''text'',
      r_delimiter = ''==========''\<rparr> 4
   = Inr \<lparr>e_highlights = [], e_notes = [], e_bookmarks = [],
          e_unparsed = [(\<lparr>r_source = ''Book'', r_info = ''garbage'', r_blank = [],
                          r_content = ''text'', r_delimiter = ''==========''\<rparr>, 4)]\<rparr>"
proof -
  let ?r = "\<lparr>r_source = ''Book'', r_info = ''garbage'', r_blank = [], r_content = ''text'',
             r_delimiter = ''==========''\<rparr>"
  have h1: "get_rawclip_type ?r = ''unparsed''"
    by code_simp
  have h2: "parse_rawclip ?r = Inr \<lparr>c_type = ''unparsed'', c_source = ''Book'', c_page = [],
                                   c_location = [], c_date = None, c_time = None,
                                   c_content = ''text''\<rparr>"
    by code_simp
  show ?thesis
    using build_unparsed [OF h1 h2] by simp
qed

text \<open>
  Claim C3, evaluated on the code. An input of one five-line record whose metadata line
  has no kind prefix: the record goes to the unparsed bucket paired with 4, the number
  of lines read before its fifth line, while its delimiter line is line 5 of the input.
\<close>

theorem parse_lines_unparsed_line_number:
  "parse_lines [''Book'', ''garbage'', [], ''text'', ''==========''] =
     Inr \<lparr>e_highlights = [], e_notes = [], e_bookmarks = [],
          e_unparsed = [(\<lparr>r_source = ''Book'', r_info = ''garbage'', r_blank = [],
                          r_content = ''text'', r_delimiter = ''==========''\<rparr>, 4)]\<rparr>"
  by code_simp

subsection \<open>Date extraction\<close>

text \<open>
  Claim C7. When the date pattern matches an info line and the lower-cased month token
  is not a key of the month table, date extraction raises \<open>KeyError\<close>; and date
  extraction returns an absent date exactly when the pattern matches nowhere in the
  line.
\<close>

theorem parse_date_info_unknown_month:
  "(re_search date_rx 3 s = Some m \<and> MONTHS (lower (group m 1)) = None
      \<longrightarrow> parse_date_info s = Inl KeyError)
   \<and> (parse_date_info s = Inr None \<longleftrightarrow> re_search date_rx 3 s = None)"
  by (auto simp: parse_date_info_def Let_def bind_def split: option.splits sum.splits)

theorem parse_date_info_unknown_month_witness:
  "re_search date_rx 3 ''Added on Sunday, Foo 27, 2023''
     = Some [Some ''Foo'', Some ''27'', Some ''2023'']
   \<and> MONTHS (lower (group [Some ''Foo'', Some ''27'', Some ''2023''] 1)) = None
   \<and> parse_date_info ''Added on Sunday, Foo 27, 2023'' = Inl KeyError"
proof -
  have a: "re_search date_rx 3 ''Added on Sunday, Foo 27, 2023''
             = Some [Some ''Foo'', Some ''27'', Some ''2023'']"
    by code_simp
  have b: "MONTHS (lower (group [Some ''Foo'', Some ''27'', Some ''2023''] 1)) = None"
    by code_simp
  show ?thesis
    using a b
      parse_date_info_unknown_month
        [of "''Added on Sunday, Foo 27, 2023''" "[Some ''Foo'', Some ''27'', Some ''2023'']"]
    by blast
qed

subsection \<open>Time extraction\<close>

lemma split_first:
  "x \<notin> set u \<Longrightarrow> x \<notin> set u' \<Longrightarrow> u @ x # v = u' @ x # v' \<Longrightarrow> u = u' \<and> v = v'"
proof (induction u arbitrary: u')
  case Nil
  then show ?case by (cases u') auto
next
  case (Cons a u)
  then show ?case by (cases u') auto
qed

lemma split_last:
  assumes "a @ x # b = a' @ x # b'" "x \<notin> set b" "x \<notin> set b'"
  shows "a = a' \<and> b = b'"
proof -
  have "rev b @ x # rev a = rev b' @ x # rev a'"
    using arg_cong[OF assms(1), of rev] by simp
  moreover have "x \<notin> set (rev b)" "x \<notin> set (rev b')" using assms(2,3) by simp_all
  ultimately have "rev b = rev b' \<and> rev a = rev a'"
    by (intro split_first)
  then show ?thesis by simp
qed

lemma digits12_no_sep: "digits12 d \<Longrightarrow> CHR '':'' \<notin> set d \<and> CHR '' '' \<notin> set d"
  using digit_not_sep by (auto simp: digits12_def list_all_iff)

lemma period_no_sep: "period_token q \<Longrightarrow> CHR '' '' \<notin> set q \<and> CHR 0x0A \<notin> set q"
  using ampm_not_sep by (auto simp: period_token_def list_all_iff)

lemma time_text_unique:
  assumes "time_text (u @ h @ CHR '':'' # mi @ CHR '':'' # se @ CHR '' '' # p)"
    and "digits12 h" "digits12 mi" "digits12 se" "period_token p"
  shows "digits12 (u @ h)"
proof -
  from assms(1) obtain d1 d2 d3 q where
    eq: "u @ h @ CHR '':'' # mi @ CHR '':'' # se @ CHR '' '' # p
          = d1 @ CHR '':'' # d2 @ CHR '':'' # d3 @ CHR '' '' # q"
    and d: "digits12 d1" "digits12 d2" "digits12 d3" "period_token q"
    unfolding time_text_def by blast
  have e0: "(u @ h @ CHR '':'' # mi @ CHR '':'' # se) @ CHR '' '' # p
          = (d1 @ CHR '':'' # d2 @ CHR '':'' # d3) @ CHR '' '' # q"
    using eq by simp
  have p1: "CHR '' '' \<notin> set p" using period_no_sep[OF assms(5)] by simp
  have q1: "CHR '' '' \<notin> set q" using period_no_sep[OF d(4)] by simp
  from split_last[OF e0 p1 q1]
  have 1: "u @ h @ CHR '':'' # mi @ CHR '':'' # se = d1 @ CHR '':'' # d2 @ CHR '':'' # d3"
    by (rule conjunct1)
  have e1: "(u @ h @ CHR '':'' # mi) @ CHR '':'' # se = (d1 @ CHR '':'' # d2) @ CHR '':'' # d3"
    using 1 by simp
  have s1: "CHR '':'' \<notin> set se" using digits12_no_sep[OF assms(4)] by simp
  have s2: "CHR '':'' \<notin> set d3" using digits12_no_sep[OF d(3)] by simp
  from split_last[OF e1 s1 s2]
  have 2: "u @ h @ CHR '':'' # mi = d1 @ CHR '':'' # d2"
    by (rule conjunct1)
  have e2: "(u @ h) @ CHR '':'' # mi = d1 @ CHR '':'' # d2" using 2 by simp
  have m1: "CHR '':'' \<notin> set mi" using digits12_no_sep[OF assms(3)] by simp
  have m2: "CHR '':'' \<notin> set d2" using digits12_no_sep[OF d(2)] by simp
  from split_last[OF e2 m1 m2] have "u @ h = d1" by (rule conjunct1)
  then show ?thesis using d(1) by simp
qed

lemma time_no_earlier_match:
  assumes "digits12 h" "digits12 mi" "digits12 se" "period_token p"
    and iso: "length h = 2 \<or> \<not> in_cls digit (last (c # u))"
  shows "rx_match time_rx (c # u @ h @ CHR '':'' # mi @ CHR '':'' # se @ CHR '' '' # p, g) = []"
proof (rule ccontr)
  let ?s = "c # u @ h @ CHR '':'' # mi @ CHR '':'' # se @ CHR '' '' # p"
  assume "rx_match time_rx (?s, g) \<noteq> []"
  then obtain t g' where "(t, g') \<in> set (rx_match time_rx (?s, g))"
    by (cases "rx_match time_rx (?s, g)") auto
  from rx_match_sound[OF this] obtain w where w: "?s = w @ t" "sem time_rx w t" by blast
  from sem_time[OF w(2)] have tt: "time_text w" and t: "t = [] \<or> t = [CHR 0x0A]" by simp_all
  have pne: "p \<noteq> []" using assms(4) by (simp add: period_token_def)
  have "last ?s = last p" using pne by simp
  moreover have "last p \<in> set p" using pne by simp
  ultimately have "last ?s \<noteq> CHR 0x0A" using period_no_sep[OF assms(4)] by auto
  then have "t = []" using t w(1) by (cases "t = []") auto
  then have "time_text ((c # u) @ h @ CHR '':'' # mi @ CHR '':'' # se @ CHR '' '' # p)"
    using tt w(1) by simp
  from time_text_unique[OF this assms(1-4)] have d: "digits12 ((c # u) @ h)" .
  have hl: "1 \<le> length h" using assms(1) by (simp add: digits12_def)
  from d have len: "length ((c # u) @ h) \<le> 2" and all: "list_all (in_cls digit) ((c # u) @ h)"
    by (simp_all add: digits12_def)
  from len have l1: "length u + length h \<le> 1" by simp
  from l1 hl have l0: "length u = 0" by linarith
  from l1 hl have h1: "length h = 1" by linarith
  from l0 have u: "u = []" by simp
  from all have "in_cls digit c" by simp
  then show False using iso u h1 by simp
qed

lemma time_first_match:
  assumes "digits12 h" "digits12 mi" "digits12 se" "period_token p"
  shows "first_match time_rx (h @ CHR '':'' # mi @ CHR '':'' # se @ CHR '' '' # p) g
           = Some ([], g(1 \<mapsto> h, 2 \<mapsto> mi, 3 \<mapsto> se, 4 \<mapsto> p))"
proof -
  have nd: "\<not> in_cls digit CHR '':''" "\<not> in_cls digit CHR '' ''" by code_simp+
  have col: "in_cls [(CHR '':'', CHR '':'')] CHR '':''" and sp: "in_cls [(CHR '' '', CHR '' '')] CHR '' ''"
    by code_simp+
  have D: "\<And>d t g. digits12 d \<Longrightarrow> t = [] \<or> \<not> in_cls digit (hd t) \<Longrightarrow>
            first_match (between digit 1 2) (d @ t) g = Some (t, g)"
    unfolding between_def by (rule first_rep) (simp_all add: digits12_def)
  have G: "\<And>i d t g. digits12 d \<Longrightarrow> t = [] \<or> \<not> in_cls digit (hd t) \<Longrightarrow>
            first_match (Grp i (between digit 1 2)) (d @ t) g = Some (t, g(i \<mapsto> d))"
    using first_grp[OF D] by simp
  have P: "first_match (Grp 4 (plus ampm)) p (g(1 \<mapsto> h, 2 \<mapsto> mi, 3 \<mapsto> se))
             = Some ([], g(1 \<mapsto> h, 2 \<mapsto> mi, 3 \<mapsto> se, 4 \<mapsto> p))"
  proof -
    have "first_match (Rep ampm 1 None) (p @ []) (g(1 \<mapsto> h, 2 \<mapsto> mi, 3 \<mapsto> se))
            = Some ([], g(1 \<mapsto> h, 2 \<mapsto> mi, 3 \<mapsto> se))"
      using assms(4) by (intro first_rep) (simp_all add: period_token_def Suc_le_eq)
    then have "first_match (Rep ampm 1 None) p (g(1 \<mapsto> h, 2 \<mapsto> mi, 3 \<mapsto> se))
            = Some ([], g(1 \<mapsto> h, 2 \<mapsto> mi, 3 \<mapsto> se))"
      by simp
    from first_grp[OF this, where i = 4] show ?thesis by (simp add: plus_def)
  qed
  show ?thesis
    unfolding time_rx_def seqs.simps
    apply (rule first_seq[OF G[OF assms(1)]])
     apply (simp add: nd)
    apply (rule first_seq[OF first_chr[OF col]])
    apply (rule first_seq[OF G[OF assms(2)]])
     apply (simp add: nd)
    apply (rule first_seq[OF first_chr[OF col]])
    apply (rule first_seq[OF G[OF assms(3)]])
     apply (simp add: nd)
    apply (rule first_seq[OF first_chr[OF sp]])
    apply (rule first_seq[OF P])
    apply (rule first_eol)
    done
qed

lemma search_first: "first_match r s Map.empty = Some x \<Longrightarrow> search r s = Some (snd x)"
  by (cases s) (auto simp: first_match_def split: list.splits)

lemma time_search:
  assumes "digits12 h" "digits12 mi" "digits12 se" "period_token p"
    and "length h = 2 \<or> pre = [] \<or> \<not> in_cls digit (last pre)"
  shows "re_search time_rx 4 (pre @ h @ CHR '':'' # mi @ CHR '':'' # se @ CHR '' '' # p)
           = Some [Some h, Some mi, Some se, Some p]"
  using assms(5)
proof (induction pre)
  case Nil
  have "[1..<5] = [1, 2, 3, 4::nat]" by (simp add: upt_rec)
  then show ?case
    using search_first[OF time_first_match[OF assms(1-4), of Map.empty]]
    by (simp add: re_search_def)
next
  case (Cons c u)
  then have iso: "length h = 2 \<or> \<not> in_cls digit (last (c # u))" by simp
  have "length h = 2 \<or> u = [] \<or> \<not> in_cls digit (last u)"
    using iso by (cases "u = []") auto
  from Cons.IH[OF this] show ?case
    using time_no_earlier_match[OF assms(1-4) iso, of Map.empty]
    by (simp add: re_search_def)
qed

lemma parse_time_info_line:
  assumes "digits12 h" "digits12 mi" "digits12 se" "period_token p"
    and "length h = 2 \<or> pre = [] \<or> \<not> in_cls digit (last pre)"
  shows "parse_time_info (pre @ h @ '':'' @ mi @ '':'' @ se @ '' '' @ p)
           = bind (py_time (to_24h (py_int h) (upper p)) (py_int mi) (py_int se))
                  (\<lambda>t. Inr (Some t))"
proof -
  have "re_search time_rx 4 (pre @ h @ '':'' @ mi @ '':'' @ se @ '' '' @ p)
          = Some [Some h, Some mi, Some se, Some p]"
    using time_search[OF assms] by simp
  then show ?thesis
    by (simp add: parse_time_info_def group_def Let_def)
qed

text \<open>
  Claim C6. Let an info line end in an hour, minutes and seconds of one or two digits
  each, separated by colons, then a space and a period token, the hour not being
  preceded by a further digit it could take. Time extraction then builds the time from
  the minutes and seconds as written and from the hour converted as follows: with period
  PM and hour other than 12, the hour plus 12; with period AM and hour 12, the hour
  minus 12, that is 0; in every other case the hour as written. In particular every line
  ending in \<open>12:00:00 AM\<close> gives 00:00:00, every line ending in \<open>12:00:00 PM\<close> gives
  12:00:00, and a line on which the pattern finds no match gives an absent time.
\<close>

theorem parse_time_info_24h:
  "(digits12 h \<and> digits12 mi \<and> digits12 se \<and> period_token p
      \<and> (length h = 2 \<or> pre = [] \<or> \<not> in_cls digit (last pre))
    \<longrightarrow> parse_time_info (pre @ h @ '':'' @ mi @ '':'' @ se @ '' '' @ p)
          = bind (py_time (to_24h (py_int h) (upper p)) (py_int mi) (py_int se))
                 (\<lambda>t. Inr (Some t)))
   \<and> (hour \<noteq> 12 \<longrightarrow> to_24h hour ''PM'' = hour + 12)
   \<and> to_24h 12 ''PM'' = 12
   \<and> to_24h 12 ''AM'' = 12 - 12
   \<and> (hour \<noteq> 12 \<longrightarrow> to_24h hour ''AM'' = hour)
   \<and> (period \<noteq> ''PM'' \<and> period \<noteq> ''AM'' \<longrightarrow> to_24h hour period = hour)
   \<and> parse_time_info (pre @ ''12:00:00 AM'')
       = Inr (Some \<lparr>t_hour = 0, t_minute = 0, t_second = 0\<rparr>)
   \<and> parse_time_info (pre @ ''12:00:00 PM'')
       = Inr (Some \<lparr>t_hour = 12, t_minute = 0, t_second = 0\<rparr>)
   \<and> (re_search time_rx 4 s = None \<longrightarrow> parse_time_info s = Inr None)"
proof -
  have d12: "digits12 ''12''" and d00: "digits12 ''00''"
    and am: "period_token ''AM''" and pm: "period_token ''PM''"
    by code_simp+
  have len: "length ''12'' = 2 \<or> pre = [] \<or> \<not> in_cls digit (last pre)" by simp
  have ev_am: "bind (py_time (to_24h (py_int ''12'') (upper ''AM'')) (py_int ''00'') (py_int ''00''))
                 (\<lambda>t. Inr (Some t)) = Inr (Some \<lparr>t_hour = 0, t_minute = 0, t_second = 0\<rparr>)"
    by code_simp
  have ev_pm: "bind (py_time (to_24h (py_int ''12'') (upper ''PM'')) (py_int ''00'') (py_int ''00''))
                 (\<lambda>t. Inr (Some t)) = Inr (Some \<lparr>t_hour = 12, t_minute = 0, t_second = 0\<rparr>)"
    by code_simp
  have a: "parse_time_info (pre @ ''12:00:00 AM'')
             = Inr (Some \<lparr>t_hour = 0, t_minute = 0, t_second = 0\<rparr>)"
    using parse_time_info_line[OF d12 d00 d00 am len] by (simp only: ev_am) simp
  have b: "parse_time_info (pre @ ''12:00:00 PM'')
             = Inr (Some \<lparr>t_hour = 12, t_minute = 0, t_second = 0\<rparr>)"
    using parse_time_info_line[OF d12 d00 d00 pm len] by (simp only: ev_pm) simp
  have c: "re_search time_rx 4 s = None \<longrightarrow> parse_time_info s = Inr None"
    by (simp add: parse_time_info_def)
  have g: "digits12 h \<and> digits12 mi \<and> digits12 se \<and> period_token p
      \<and> (length h = 2 \<or> pre = [] \<or> \<not> in_cls digit (last pre))
    \<longrightarrow> parse_time_info (pre @ h @ '':'' @ mi @ '':'' @ se @ '' '' @ p)
          = bind (py_time (to_24h (py_int h) (upper p)) (py_int mi) (py_int se))
                 (\<lambda>t. Inr (Some t))"
  proof (intro impI, elim conjE)
    assume "digits12 h" "digits12 mi" "digits12 se" "period_token p"
      "length h = 2 \<or> pre = [] \<or> \<not> in_cls digit (last pre)"
    then show "parse_time_info (pre @ h @ '':'' @ mi @ '':'' @ se @ '' '' @ p)
          = bind (py_time (to_24h (py_int h) (upper p)) (py_int mi) (py_int se))
                 (\<lambda>t. Inr (Some t))"
      by (rule parse_time_info_line)
  qed
  have t1: "hour \<noteq> 12 \<longrightarrow> to_24h hour ''PM'' = hour + 12"
    and t2: "to_24h 12 ''PM'' = 12"
    and t3: "to_24h 12 ''AM'' = 12 - 12"
    and t4: "hour \<noteq> 12 \<longrightarrow> to_24h hour ''AM'' = hour"
    and t5: "period \<noteq> ''PM'' \<and> period \<noteq> ''AM'' \<longrightarrow> to_24h hour period = hour"
    by (simp_all add: to_24h_def)
  from g t1 t2 t3 t4 t5 a b c show ?thesis
    by (intro conjI)
qed

theorem parse_time_info_24h_witness:
  "parse_time_info ''Added on Sunday, August 27, 2023 1:37:08 PM''
     = Inr (Some \<lparr>t_hour = 13, t_minute = 37, t_second = 8\<rparr>)
   \<and> parse_time_info ''Added on Sunday'' = Inr None"
proof -
  have h: "digits12 ''1'' \<and> digits12 ''37'' \<and> digits12 ''08'' \<and> period_token ''PM''
           \<and> (length ''1'' = 2 \<or> ''Added on Sunday, August 27, 2023 '' = []
               \<or> \<not> in_cls digit (last ''Added on Sunday, August 27, 2023 ''))"
    by code_simp
  have ev: "bind (py_time (to_24h (py_int ''1'') (upper ''PM'')) (py_int ''37'') (py_int ''08''))
              (\<lambda>t. Inr (Some t)) = Inr (Some \<lparr>t_hour = 13, t_minute = 37, t_second = 8\<rparr>)"
    by code_simp
  have n: "re_search time_rx 4 ''Added on Sunday'' = None"
    by code_simp
  have "parse_time_info (''Added on Sunday, August 27, 2023 '' @ ''1'' @ '':'' @ ''37'' @ '':''
                          @ ''08'' @ '' '' @ ''PM'')
          = Inr (Some \<lparr>t_hour = 13, t_minute = 37, t_second = 8\<rparr>)"
    using h ev
      parse_time_info_24h
        [of "''1''" "''37''" "''08''" "''PM''" "''Added on Sunday, August 27, 2023 ''"]
    by presburger
  moreover have "parse_time_info ''Added on Sunday'' = Inr None"
    using n parse_time_info_24h [of _ _ _ _ _ _ _ "''Added on Sunday''"] by blast
  ultimately show ?thesis by simp
qed

text \<open>
  Claim C10. Time extraction is not total on the lines its pattern matches: the pattern
  matches a line ending in \<open>1:99:00 AM\<close> and one ending in \<open>13:00:00 PM\<close>, and for
  both the construction of the time value raises \<open>ValueError\<close>; the pattern also takes
  \<open>MAP\<close> as the period token.
\<close>

theorem parse_time_info_not_total:
  "re_search time_rx 4 ''1:99:00 AM'' = Some [Some ''1'', Some ''99'', Some ''00'', Some ''AM'']
   \<and> parse_time_info ''1:99:00 AM'' = Inl ValueError
   \<and> re_search time_rx 4 ''13:00:00 PM''
       = Some [Some ''13'', Some ''00'', Some ''00'', Some ''PM'']
   \<and> parse_time_info ''13:00:00 PM'' = Inl ValueError
   \<and> re_search time_rx 4 ''1:00:00 MAP''
       = Some [Some ''1'', Some ''00'', Some ''00'', Some ''MAP'']"
  by code_simp

subsection \<open>The page and location pretty-printer\<close>

lemma startswith_append: "startswith (p @ s) p"
  by (induction p) simp_all

lemma removesuffix_append: "suf \<noteq> [] \<Longrightarrow> removesuffix (t @ suf) suf = t"
  by (simp add: removesuffix_def endswith_def startswith_append)

lemma concat_sep_join:
  "xs \<noteq> [] \<Longrightarrow> concat (map (\<lambda>x. f x @ sep) xs) = join sep (map f xs) @ sep"
  by (induction xs rule: induct_list012) simp_all

text \<open>
  Claim C8. The pretty-printer gives \<open>no data\<close> for the empty sequence, the decimal
  string of the element for a sequence of one, the two decimal strings joined by a
  hyphen for a sequence of two, and for a longer sequence the decimal strings joined by
  a comma and a space, with no separator after the last.
\<close>

theorem pages_and_loc_to_str_cases:
  "pages_and_loc_to_str (Some []) = ''no data''
   \<and> pages_and_loc_to_str (Some [a]) = py_str a
   \<and> pages_and_loc_to_str (Some [a, b]) = py_str a @ ''-'' @ py_str b
   \<and> (2 < length pp \<longrightarrow> pages_and_loc_to_str (Some pp) = join '', '' (map py_str pp))"
proof -
  have "pages_and_loc_to_str (Some pp) = join '', '' (map py_str pp)" if "2 < length pp"
  proof -
    from that have ne: "pp \<noteq> []" by auto
    have "pages_and_loc_to_str (Some pp) =
            removesuffix (concat (map (\<lambda>i. py_str i @ '', '') pp)) '', ''"
      using that by (auto simp: pages_and_loc_to_str_def Let_def)
    also have "\<dots> = join '', '' (map py_str pp)"
      by (simp only: concat_sep_join[OF ne]) (rule removesuffix_append, simp)
    finally show ?thesis .
  qed
  then show ?thesis by (simp add: pages_and_loc_to_str_def Let_def)
qed

theorem pages_and_loc_to_str_cases_witness:
  "pages_and_loc_to_str (Some [3, 14, 15]) = ''3, 14, 15''"
proof -
  have "pages_and_loc_to_str (Some [3, 14, 15]) = join '', '' (map py_str [3, 14, 15])"
    using pages_and_loc_to_str_cases [of 0 0 "[3, 14, 15]"] by simp
  also have "\<dots> = ''3, 14, 15''"
    by code_simp
  finally show ?thesis .
qed

subsection \<open>The output formats\<close>

text \<open>
  Claim C1, evaluated on the code. For a clip with source \<open>Book\<close> and time 13:37:08
  the object handed to the JSON encoder has the seven fields in order, and its
  \<open>time\<close> field is the text of the source, \<open>Book\<close>, where the text of the clip's time
  is \<open>13:37:08\<close>; the printed output shows the same.
\<close>

theorem json_formatter_time_field:
  "json_dict \<lparr>c_type = ''highlight'', c_source = ''Book'', c_page = [46],
              c_location = [694, 694],
              c_date = Some \<lparr>d_year = 2023, d_month = 8, d_day = 27\<rparr>,
              c_time = Some \<lparr>t_hour = 13, t_minute = 37, t_second = 8\<rparr>,
              c_content = ''text''\<rparr>
     = JDict [(''source'', JStr ''Book''), (''page'', JList [JInt 46]),
              (''location'', JList [JInt 694, JInt 694]), (''date'', JStr ''2023-08-27''),
              (''time'', JStr ''Book''), (''type'', JStr ''highlight''),
              (''content'', JStr ''text'')]
   \<and> str_time (Some \<lparr>t_hour = 13, t_minute = 37, t_second = 8\<rparr>) = ''13:37:08''
   \<and> lines_of [] (json_formatter
        [\<lparr>c_type = ''highlight'', c_source = ''Book'', c_page = [46],
          c_location = [694, 694],
          c_date = Some \<lparr>d_year = 2023, d_month = 8, d_day = 27\<rparr>,
          c_time = Some \<lparr>t_hour = 13, t_minute = 37, t_second = 8\<rparr>,
          c_content = ''text''\<rparr>])
     = [''['', ''    {'',
        ''        '' @ encode_str ''source'' @ '': '' @ encode_str ''Book'' @ '','',
        ''        '' @ encode_str ''page'' @ '': ['',
        ''            46'',
        ''        ],'',
        ''        '' @ encode_str ''location'' @ '': ['',
        ''            694,'',
        ''            694'',
        ''        ],'',
        ''        '' @ encode_str ''date'' @ '': '' @ encode_str ''2023-08-27'' @ '','',
        ''        '' @ encode_str ''time'' @ '': '' @ encode_str ''Book'' @ '','',
        ''        '' @ encode_str ''type'' @ '': '' @ encode_str ''highlight'' @ '','',
        ''        '' @ encode_str ''content'' @ '': '' @ encode_str ''text'',
        ''    }'', '']'']"
  by code_simp

text \<open>
  Claim C9, evaluated on the code. The plain-text block of a highlight has, where the
  kind header is expected, the representation of the method \<open>capitalize\<close> followed by
  a colon; no line of the output is \<open>Highlight:\<close>.
\<close>

theorem text_formatter_kind_header:
  "lines_of [] (text_formatter (\<lambda>_. ''0x7f3a5c2b1e30'')
       [\<lparr>c_type = ''highlight'', c_source = ''Book'', c_page = [46], c_location = [694, 694],
         c_date = Some \<lparr>d_year = 2023, d_month = 8, d_day = 27\<rparr>,
         c_time = Some \<lparr>t_hour = 13, t_minute = 37, t_second = 8\<rparr>,
         c_content = ''text''\<rparr>])
     = [replicate 70 CHR ''-'', ''Source: Book'', ''Page: 46'', ''Location: 694-694'',
        ''Creation: 2023-08-27 | 13:37:08'',
        ''<built-in method capitalize of str object at 0x7f3a5c2b1e30>:'', [], ''text'',
        replicate 70 CHR ''-'', replicate 70 CHR ''-'', []]
   \<and> ''Highlight:'' \<notin> set (lines_of [] (text_formatter (\<lambda>_. ''0x7f3a5c2b1e30'')
       [\<lparr>c_type = ''highlight'', c_source = ''Book'', c_page = [46], c_location = [694, 694],
         c_date = Some \<lparr>d_year = 2023, d_month = 8, d_day = 27\<rparr>,
         c_time = Some \<lparr>t_hour = 13, t_minute = 37, t_second = 8\<rparr>,
         c_content = ''text''\<rparr>]))"
  by code_simp

end
